theory Spec2Isabelle
  imports Main
begin

section \<open>Data model (src/utils/types.ts)\<close>

text \<open>
  A JavaScript string is modelled as a \<^typ>\<open>string\<close>, one \<^typ>\<open>char\<close> per code unit.
  The field \<open>Letter.letter\<close> has the TypeScript type \<open>string\<close>; nothing in the evaluator
  restricts it to one character, so it is a \<^typ>\<open>string\<close> here as well. The numbers
  \<open>width\<close>, \<open>height\<close>, \<open>letterCount\<close>, \<open>guessesAllowed\<close> and \<open>columns\<close> are counts and are
  modelled as natural numbers.
\<close>

datatype MatchState = MATCH | POSITION | INVALID

record Letter =
  letter :: string
  state :: MatchState

text \<open>
  \<open>WordleRow.letter\<close> is an optional field (\<open>letter?: Letter[]\<close>); it is called
  \<open>letters\<close> here because \<open>letter\<close> is already the field of \<open>Letter\<close>.
\<close>

record WordleRow =
  width :: nat
  letters :: "Letter list option"

text \<open>\<open>complete: false | 'SUCCESS' | 'FAIL'\<close>; \<open>Incomplete\<close> stands for \<open>false\<close>.\<close>

datatype Completion = Incomplete | SUCCESS | FAIL

text \<open>\<open>Omit<WordleState, 'width' | 'height'>\<close>, the type every operation works on.\<close>

record WordleState =
  rows :: "WordleRow list"
  complete :: Completion
  target :: string

datatype error = TypeError | NotOpen

section \<open>Board evaluator (src/utils/types.ts)\<close>

text \<open>
  The three operations mutate their argument and return nothing; here each returns the
  instance as it is left behind. Every one of them starts, once it has an open row,
  with \<open>if (!row.letter) row.letter = []\<close>: \<open>normalise\<close> is that statement, and the
  \<open>throw new Error('Cant happen')\<close> that follows it in the source is dead code, since the
  field has just been set.
\<close>

definition normalise :: "WordleRow \<Rightarrow> Letter list" where
  "normalise entry = (case letters entry of None \<Rightarrow> [] | Some ls \<Rightarrow> ls)"

definition add :: "WordleState \<Rightarrow> nat \<Rightarrow> nat \<Rightarrow> string \<Rightarrow> WordleState" where
  "add instance w h l =
     (if complete instance \<noteq> Incomplete then instance
      else
        let rs = (if rows instance = [] then [\<lparr>width = w, letters = Some []\<rparr>] else rows instance);
            entry = last rs;
            ls = normalise entry
        in if length ls \<ge> width entry
           then instance\<lparr>rows := butlast rs @ [entry\<lparr>letters := Some ls\<rparr>]\<rparr>
           else instance\<lparr>rows := butlast rs @
                  [entry\<lparr>letters := Some (ls @ [\<lparr>letter = l, state = INVALID\<rparr>])\<rparr>]\<rparr>)"

definition remove :: "WordleState \<Rightarrow> WordleState" where
  "remove instance =
     (if complete instance \<noteq> Incomplete then instance
      else if rows instance = [] then instance
      else
        let entry = last (rows instance);
            ls = normalise entry
        in if length ls \<le> 0
           then instance\<lparr>rows := butlast (rows instance) @ [entry\<lparr>letters := Some ls\<rparr>]\<rparr>
           else instance\<lparr>rows := butlast (rows instance) @
                  [entry\<lparr>letters := Some (butlast ls)\<rparr>]\<rparr>)"

text \<open>
  The first loop of \<open>enter\<close>. \<open>targetCopy[i] === entry.letter[i].letter\<close> compares the
  one-character string at index \<open>i\<close> (\<open>undefined\<close> past the end, which equals no string)
  with the guessed string; the template string then replaces index \<open>i\<close> by the sentinel.
\<close>

function first_pass :: "nat \<Rightarrow> Letter list \<Rightarrow> string \<Rightarrow> Letter list \<times> string" where
  "first_pass i ls targetCopy =
     (if i < length ls then
        (if i < length targetCopy \<and> [targetCopy ! i] = letter (ls ! i)
         then first_pass (i + 1) (ls[i := (ls ! i)\<lparr>state := MATCH\<rparr>])
                (take i targetCopy @ ''_'' @ drop (i + 1) targetCopy)
         else first_pass (i + 1) ls targetCopy)
      else (ls, targetCopy))"
  by pat_completeness auto
termination
  by (relation "measure (\<lambda>(i, ls, t). length ls - i)") auto

text \<open>\<open>targetCopy.split('').findIndex((e) => e === letter)\<close>, with \<open>None\<close> for \<open>-1\<close>.\<close>

fun findIndex :: "string \<Rightarrow> string \<Rightarrow> nat option" where
  "findIndex [] l = None"
| "findIndex (e # es) l =
     (if [e] = l then Some 0 else map_option Suc (findIndex es l))"

function second_pass :: "nat \<Rightarrow> Letter list \<Rightarrow> string \<Rightarrow> Letter list \<times> string" where
  "second_pass i ls targetCopy =
     (if i < length ls then
        (if state (ls ! i) = MATCH then second_pass (i + 1) ls targetCopy
         else
           (case findIndex targetCopy (letter (ls ! i)) of
              None \<Rightarrow> second_pass (i + 1) (ls[i := (ls ! i)\<lparr>state := INVALID\<rparr>]) targetCopy
            | Some index \<Rightarrow>
                second_pass (i + 1) (ls[i := (ls ! i)\<lparr>state := POSITION\<rparr>])
                  (take index targetCopy @ ''_'' @ drop (index + 1) targetCopy)))
      else (ls, targetCopy))"
  by pat_completeness auto
termination
  by (relation "measure (\<lambda>(i, ls, t). length ls - i)") auto

text \<open>The two loops together: the letters of the evaluated row.\<close>

definition evaluate :: "Letter list \<Rightarrow> string \<Rightarrow> Letter list" where
  "evaluate ls t = (case first_pass 0 ls t of (ls1, t1) \<Rightarrow> fst (second_pass 0 ls1 t1))"

text \<open>
  \<open>enter\<close> reads \<open>instance.rows[instance.rows.length - 1].letter\<close> first: with no rows
  the element is \<open>undefined\<close> and the property access throws a TypeError. There is no
  test of \<open>instance.complete\<close>.
\<close>

definition enter :: "WordleState \<Rightarrow> nat \<Rightarrow> nat \<Rightarrow> error + WordleState" where
  "enter instance w h =
     (if rows instance = [] then Inl TypeError
      else
        let entry = last (rows instance);
            ls = normalise entry
        in if length ls \<noteq> width entry
           then Inr (instance\<lparr>rows := butlast (rows instance) @ [entry\<lparr>letters := Some ls\<rparr>]\<rparr>)
           else
             let ls' = evaluate ls (target instance);
                 rs = butlast (rows instance) @ [entry\<lparr>letters := Some ls'\<rparr>]
             in if list_all (\<lambda>e. state e = MATCH) ls'
                then Inr (instance\<lparr>rows := rs, complete := SUCCESS\<rparr>)
                else if length rs \<ge> h
                then Inr (instance\<lparr>rows := rs, complete := FAIL\<rparr>)
                else Inr (instance\<lparr>rows := rs @ [\<lparr>width = w, letters = Some []\<rparr>]\<rparr>))"


section \<open>Session controller (src/components/mikorle/mikordle.tsx)\<close>

record GameState =
  letterCount :: nat
  guessesAllowed :: nat
  activeGuess :: string
  columns :: nat
  states :: "WordleState list"

text \<open>
  \<open>WinState\<close> repeats three field names of \<open>GameState\<close>; they carry the prefix \<open>win\<close>.
  An entry of \<open>records\<close> is \<open>false\<close> (\<open>None\<close>) or the number of guesses used.
\<close>

record WinState =
  winLetterCount :: nat
  winGuessesAllowed :: nat
  winColumns :: nat
  records :: "nat option list"

text \<open>The component state \<open>GameState | WinState\<close>, told apart by its \<open>type\<close> tag.\<close>

datatype SessionState = Game GameState | Win WinState

text \<open>
  The controller functions build a new \<open>GameState\<close> whose boards are shallow copies
  (\<open>{ ...e }\<close>): a copy shares its \<open>rows\<close> array with the board it was copied from, so
  the evaluator also changes the rows of the state that is being replaced. The boards of
  one state never share rows with each other (the constructor gives every board its own
  array), and the replaced state is dropped, so each function is modelled by the state
  it returns.
\<close>

definition addLetter :: "GameState \<Rightarrow> string \<Rightarrow> GameState" where
  "addLetter g l =
     (if length (activeGuess g) \<ge> letterCount g then g
      else g\<lparr>activeGuess := activeGuess g @ l,
             states := map (\<lambda>e. if complete e \<noteq> Incomplete then e
                                 else add e (letterCount g) (guessesAllowed g) l) (states g)\<rparr>)"

definition removeLetter :: "GameState \<Rightarrow> GameState" where
  "removeLetter g =
     (if length (activeGuess g) \<le> 0 then g
      else g\<lparr>activeGuess := take (length (activeGuess g) - 1) (activeGuess g),
             states := map (\<lambda>e. if complete e \<noteq> Incomplete then e else remove e) (states g)\<rparr>)"

text \<open>\<open>Array.prototype.map\<close> with a callback that may throw: the first exception ends it.\<close>

fun map_result :: "('a \<Rightarrow> error + 'b) \<Rightarrow> 'a list \<Rightarrow> error + 'b list" where
  "map_result f [] = Inr []"
| "map_result f (x # xs) =
     (case f x of
        Inl e \<Rightarrow> Inl e
      | Inr y \<Rightarrow> (case map_result f xs of Inl e \<Rightarrow> Inl e | Inr ys \<Rightarrow> Inr (y # ys)))"

definition onEnter :: "GameState \<Rightarrow> string list \<Rightarrow> error + SessionState" where
  "onEnter g validWords =
     (if length (activeGuess g) \<noteq> letterCount g then Inr (Game g)
      else if activeGuess g \<notin> set validWords then Inr (Game g)
      else
        (case map_result (\<lambda>e. if complete e \<noteq> Incomplete then Inr e
                               else enter e (letterCount g) (guessesAllowed g)) (states g) of
           Inl e \<Rightarrow> Inl e
         | Inr sts \<Rightarrow>
             if list_all (\<lambda>e. complete e \<noteq> Incomplete) sts
             then Inr (Win \<lparr>winLetterCount = letterCount g,
                            winGuessesAllowed = guessesAllowed g,
                            winColumns = columns g,
                            records = map (\<lambda>e. if complete e = SUCCESS
                                                 then Some (length (rows e)) else None) sts\<rparr>)
             else Inr (Game (g\<lparr>states := sts, activeGuess := []\<rparr>))))"

text \<open>
  The state that \<open>onEnter\<close> was given, as the call leaves it. \<open>enter\<close> works on a
  shallow copy, so what it does to the rows (and to the letters in them) is done to the
  rows of the original board as well, while \<open>complete\<close> is set on the copy only. When
  \<open>enter\<close> throws on a later board, the boards before it have been changed so.
\<close>

fun enter_in_place :: "WordleState list \<Rightarrow> nat \<Rightarrow> nat \<Rightarrow> WordleState list" where
  "enter_in_place [] w h = []"
| "enter_in_place (e # es) w h =
     (if complete e \<noteq> Incomplete then e # enter_in_place es w h
      else (case enter e w h of
              Inl x \<Rightarrow> e # es
            | Inr e' \<Rightarrow> e\<lparr>rows := rows e'\<rparr> # enter_in_place es w h))"

definition entered_in_place :: "GameState \<Rightarrow> GameState" where
  "entered_in_place g =
     g\<lparr>states := enter_in_place (states g) (letterCount g) (guessesAllowed g)\<rparr>"

text \<open>
  The default state of the constructor of \<open>Mikordle\<close> (no saved state to restore), from
  the props \<open>letterCount\<close>, \<open>guessesAllowed\<close>, \<open>columns\<close> and \<open>words\<close>.
\<close>

definition initial :: "nat \<Rightarrow> nat \<Rightarrow> nat \<Rightarrow> string list \<Rightarrow> GameState" where
  "initial lc ga cols words =
     \<lparr>letterCount = lc, guessesAllowed = ga, activeGuess = [], columns = cols,
      states = map (\<lambda>t. \<lparr>rows = [], complete = Incomplete, target = t\<rparr>) words\<rparr>"

section \<open>Peer transport and replication events (the module imported as utils/messenger)\<close>

text \<open>
  The application payloads \<open>{event, value}\<close>. \<open>MikordleChat\<close> passes each one through
  \<open>JSON.stringify\<close> on its way to \<open>WebRTCCommunicator.send\<close>; the encoding is left out and
  the payload type of the transport is a parameter.
\<close>

datatype ReplicationEvent =
  KeyPressed string | KeyRemoved | EnterPressed | Initialise GameState | Request | Close

text \<open>
  Of \<open>WebRTCCommunicator\<close> the two fields that \<open>send\<close> reads: the flag \<open>isReady\<close> and
  \<open>dataChannel\<close>, which is \<open>undefined\<close> (\<open>None\<close>) until a channel is stored and is
  represented afterwards by the values handed to the channel so far, oldest first.
\<close>

record 'm WebRTCCommunicator =
  isReady :: bool
  dataChannel :: "'m list option"

text \<open>
  \<open>send\<close> returns what it threw, if anything, and the transport as it is afterwards.
\<close>

definition send :: "'m WebRTCCommunicator \<Rightarrow> 'm \<Rightarrow> error option \<times> 'm WebRTCCommunicator" where
  "send c v =
     (if \<not> isReady c \<or> dataChannel c = None then (Some NotOpen, c)
      else (None, c\<lparr>dataChannel := map_option (\<lambda>sent. sent @ [v]) (dataChannel c)\<rparr>))"

section \<open>The keyed-input entry point (Mikordle.onKey)\<close>

record KeyEvent =
  keyCode :: nat
  key :: string

text \<open>
  The props that \<open>onKey\<close> reads. The communicator is a \<open>MikordleChat\<close>, which is modelled
  by the transport it wraps: \<open>keyPressed\<close>, \<open>keyRemoved\<close> and \<open>enterPressed\<close> each make one
  call of \<open>send\<close> with their event.
\<close>

record MikordleProps =
  validWords :: "string list"
  continuing :: bool
  communicator :: "ReplicationEvent WebRTCCommunicator option"

text \<open>The component: its props and its state (\<open>this.state\<close>, here \<open>session\<close>).\<close>

record Mikordle =
  props :: MikordleProps
  session :: SessionState

text \<open>
  What a call leaves behind: the events for which a method of the communicator was
  invoked, in order; the exception that ended the call, if any; the component.
\<close>

record KeyOutcome =
  invoked :: "ReplicationEvent list"
  thrown :: "error option"
  component :: Mikordle

text \<open>
  \<open>if (this.props.communicator && !synthetic) this.props.communicator.<method>(...)\<close>.
\<close>

definition broadcast :: "Mikordle \<Rightarrow> bool \<Rightarrow> ReplicationEvent \<Rightarrow> KeyOutcome" where
  "broadcast m synthetic ev =
     (case communicator (props m) of
        None \<Rightarrow> \<lparr>invoked = [], thrown = None, component = m\<rparr>
      | Some chat \<Rightarrow>
          if synthetic then \<lparr>invoked = [], thrown = None, component = m\<rparr>
          else (case send chat ev of
                  (err, chat') \<Rightarrow>
                    \<lparr>invoked = [ev], thrown = err,
                     component = m\<lparr>props := (props m)\<lparr>communicator := Some chat'\<rparr>\<rparr>\<rparr>))"

text \<open>
  One \<open>this.setState((s) => ...)\<close> of \<open>onKey\<close>: the updater runs once, on the current
  state; it returns a state that is not a \<open>GameState\<close> as it is. An exception inside it
  ends the call with no new state; what it leaves is the current state as the updater
  has changed it in place by then, which the updater function \<open>f\<close> returns with the
  exception. \<open>this.end()\<close> only calls the \<open>onEnd\<close> hook of the props and touches neither
  the state nor the communicator, so it does not appear.
\<close>

definition update :: "Mikordle \<Rightarrow> bool \<Rightarrow> ReplicationEvent
                      \<Rightarrow> (GameState \<Rightarrow> (error \<times> GameState) + SessionState) \<Rightarrow> KeyOutcome" where
  "update m synthetic ev f =
     (case session m of
        Win w \<Rightarrow> \<lparr>invoked = [], thrown = None, component = m\<rparr>
      | Game g \<Rightarrow>
          let b = broadcast m synthetic ev
          in if thrown b \<noteq> None then b
             else (case f g of
                     Inl (e, g') \<Rightarrow>
                       b\<lparr>thrown := Some e, component := (component b)\<lparr>session := Game g'\<rparr>\<rparr>
                   | Inr s \<Rightarrow> b\<lparr>component := (component b)\<lparr>session := s\<rparr>\<rparr>))"

text \<open>Statement after statement: an exception ends the call.\<close>

definition and_then :: "KeyOutcome \<Rightarrow> (Mikordle \<Rightarrow> KeyOutcome) \<Rightarrow> KeyOutcome" where
  "and_then r f =
     (if thrown r \<noteq> None then r
      else let r' = f (component r) in r'\<lparr>invoked := invoked r @ invoked r'\<rparr>)"

text \<open>
  \<open>String.prototype.toUpperCase\<close> is not code of this repository: \<open>onKey\<close> takes it as
  its first argument.
\<close>

definition onKey :: "(string \<Rightarrow> string) \<Rightarrow> Mikordle \<Rightarrow> KeyEvent option \<Rightarrow> bool \<Rightarrow> KeyOutcome" where
  "onKey toUpperCase m e synthetic =
     (case e of
        None \<Rightarrow> \<lparr>invoked = [], thrown = None, component = m\<rparr>
      | Some ev \<Rightarrow>
          if (keyCode ev < 65 \<or> keyCode ev > 90) \<and> keyCode ev \<noteq> 8 \<and> keyCode ev \<noteq> 13
          then \<lparr>invoked = [], thrown = None, component = m\<rparr>
          else
            and_then
              (and_then
                 (if keyCode ev \<ge> 65 \<and> keyCode ev \<le> 90
                  then update m synthetic (KeyPressed (toUpperCase (key ev)))
                         (\<lambda>g. Inr (Game (addLetter g (toUpperCase (key ev)))))
                  else \<lparr>invoked = [], thrown = None, component = m\<rparr>)
                 (\<lambda>m1. if keyCode ev = 8
                        then update m1 synthetic KeyRemoved (\<lambda>g. Inr (Game (removeLetter g)))
                        else \<lparr>invoked = [], thrown = None, component = m1\<rparr>))
              (\<lambda>m2. if keyCode ev = 13
                     then update m2 synthetic EnterPressed
                            (\<lambda>g. case onEnter g (validWords (props m2)) of
                                   Inl x \<Rightarrow> Inl (x, entered_in_place g)
                                 | Inr s \<Rightarrow> Inr s)
                     else \<lparr>invoked = [], thrown = None, component = m2\<rparr>))"

section \<open>Sequences of controller operations\<close>

datatype Operation = AddLetter string | RemoveLetter | OnEnter

text \<open>
  One controller operation on the component state, as the updaters of \<open>onKey\<close> apply it
  (a \<open>WinState\<close> is returned as it is); a sequence stops at the first exception.
\<close>

definition apply_operation :: "string list \<Rightarrow> SessionState \<Rightarrow> Operation \<Rightarrow> error + SessionState" where
  "apply_operation vw s op =
     (case s of
        Win w \<Rightarrow> Inr (Win w)
      | Game g \<Rightarrow>
          (case op of
             AddLetter l \<Rightarrow> Inr (Game (addLetter g l))
           | RemoveLetter \<Rightarrow> Inr (Game (removeLetter g))
           | OnEnter \<Rightarrow> onEnter g vw))"

fun run :: "string list \<Rightarrow> SessionState \<Rightarrow> Operation list \<Rightarrow> error + SessionState" where
  "run vw s [] = Inr s"
| "run vw s (op # ops) =
     (case apply_operation vw s op of Inl e \<Rightarrow> Inl e | Inr s' \<Rightarrow> run vw s' ops)"

section \<open>Measures used in the statements\<close>

text \<open>The letters of a guess as \<open>add\<close> stores them: each tagged \<open>INVALID\<close>.\<close>

definition typed :: "string list \<Rightarrow> Letter list" where
  "typed g = map (\<lambda>l. \<lparr>letter = l, state = INVALID\<rparr>) g"

text \<open>The number of positions of a guess that hold the character the target has there.\<close>

definition matching :: "string list \<Rightarrow> string \<Rightarrow> nat" where
  "matching g t = length (filter (\<lambda>i. i < length t \<and> [t ! i] = g ! i) [0..<length g])"

text \<open>The number of positions of a row that hold \<open>c\<close> and are marked \<open>MATCH\<close> or \<open>POSITION\<close>.\<close>

definition credited :: "string \<Rightarrow> Letter list \<Rightarrow> nat" where
  "credited c ls =
     length (filter (\<lambda>l. letter l = c \<and> (state l = MATCH \<or> state l = POSITION)) ls)"

text \<open>The number of occurrences of \<open>c\<close> in a target.\<close>

definition occurrences :: "string \<Rightarrow> string \<Rightarrow> nat" where
  "occurrences c t = length (filter (\<lambda>e. [e] = c) t)"

text \<open>The letter count of the open row; a board with no rows counts as zero letters.\<close>

definition open_letters :: "WordleState \<Rightarrow> nat" where
  "open_letters b = (if rows b = [] then 0 else length (normalise (last (rows b))))"


text \<open>An operation whose letter, if it has one, is a string of one character.\<close>

fun one_character :: "Operation \<Rightarrow> bool" where
  "one_character (AddLetter l) = (length l = 1)"
| "one_character RemoveLetter = True"
| "one_character OnEnter = True"

text \<open>
  The controller keeps guess and boards in step: the guess is no longer than
  \<open>letterCount\<close>, and every incomplete board has as many letters in its open row as the
  guess has characters, in a row of width \<open>letterCount\<close>.
\<close>

definition in_step :: "GameState \<Rightarrow> bool" where
  "in_step g \<longleftrightarrow>
     length (activeGuess g) \<le> letterCount g \<and>
     (\<forall>b \<in> set (states g). complete b = Incomplete \<longrightarrow>
        open_letters b = length (activeGuess g) \<and>
        (rows b \<noteq> [] \<longrightarrow> width (last (rows b)) = letterCount g))"


declare first_pass.simps [simp del]
declare second_pass.simps [simp del]

section \<open>The two passes of the evaluation\<close>

text \<open>The loops with the template strings written as list updates.\<close>

lemma first_pass_unfold:
  "first_pass i ls t =
     (if i < length ls then
        (if i < length t \<and> [t ! i] = letter (ls ! i)
         then first_pass (Suc i) (ls[i := (ls ! i)\<lparr>state := MATCH\<rparr>]) (t[i := CHR ''_''])
         else first_pass (Suc i) ls t)
      else (ls, t))"
  by (subst first_pass.simps) (simp add: upd_conv_take_nth_drop)

lemma findIndex_Some: "findIndex t l = Some k \<Longrightarrow> k < length t \<and> [t ! k] = l"
  by (induction t arbitrary: k) (auto split: if_splits)

lemma second_pass_unfold:
  "second_pass i ls t =
     (if i < length ls then
        (if state (ls ! i) = MATCH then second_pass (Suc i) ls t
         else
           (case findIndex t (letter (ls ! i)) of
              None \<Rightarrow> second_pass (Suc i) (ls[i := (ls ! i)\<lparr>state := INVALID\<rparr>]) t
            | Some k \<Rightarrow>
                second_pass (Suc i) (ls[i := (ls ! i)\<lparr>state := POSITION\<rparr>])
                  (t[k := CHR ''_''])))
      else (ls, t))"
  by (subst second_pass.simps)
     (auto split: option.split dest: findIndex_Some simp: upd_conv_take_nth_drop)

lemma count_update:
  assumes "i < length xs"
  shows "length (filter P (xs[i := y])) + (if P (xs ! i) then 1 else 0)
       = length (filter P xs) + (if P y then 1 else 0)"
proof -
  have "xs = take i xs @ xs ! i # drop (Suc i) xs"
    using assms by (simp add: id_take_nth_drop)
  then have "filter P xs = filter P (take i xs) @ filter P (xs ! i # drop (Suc i) xs)"
    by (metis filter_append)
  then have a: "length (filter P xs) = length (filter P (take i xs)) + (if P (xs ! i) then 1 else 0) + length (filter P (drop (Suc i) xs))"
    by simp
  have b: "length (filter P (xs[i := y])) = length (filter P (take i xs)) + (if P y then 1 else 0) + length (filter P (drop (Suc i) xs))"
    using assms by (simp add: upd_conv_take_nth_drop)
  from a b show ?thesis by simp
qed

lemma first_pass_state:
  "first_pass i ls t = (ls', t') \<Longrightarrow>
     length ls' = length ls \<and> map letter ls' = map letter ls \<and>
     (\<forall>j < length ls. state (ls' ! j) =
        (if i \<le> j \<and> j < length t \<and> [t ! j] = letter (ls ! j) then MATCH else state (ls ! j)))"
proof (induction "length ls - i" arbitrary: i ls t)
  case 0
  then have "ls' = ls" by (simp add: first_pass_unfold [of i ls t])
  with 0 show ?case by auto
next
  case (Suc n)
  then have i: "i < length ls" by simp
  show ?case
  proof (cases "i < length t \<and> [t ! i] = letter (ls ! i)")
    case True
    let ?ls = "ls[i := (ls ! i)\<lparr>state := MATCH\<rparr>]"
    from True i Suc.prems have run: "first_pass (Suc i) ?ls (t[i := CHR ''_'']) = (ls', t')"
      by (simp add: first_pass_unfold [of i ls t])
    have "n = length ?ls - Suc i" using Suc.hyps(2) by simp
    from Suc.hyps(1) [OF this run]
    have ih: "length ls' = length ?ls" "map letter ls' = map letter ?ls"
      "\<forall>j < length ?ls. state (ls' ! j) =
        (if Suc i \<le> j \<and> j < length (t[i := CHR ''_'']) \<and> [t[i := CHR ''_''] ! j] = letter (?ls ! j)
         then MATCH else state (?ls ! j))"
      by simp_all
    have "map letter ?ls = map letter ls"
      using i by (simp add: map_update list_update_same_conv)
    moreover have "\<forall>j < length ls. state (ls' ! j) =
        (if i \<le> j \<and> j < length t \<and> [t ! j] = letter (ls ! j) then MATCH else state (ls ! j))"
    proof (intro allI impI)
      fix j assume j: "j < length ls"
      show "state (ls' ! j) =
        (if i \<le> j \<and> j < length t \<and> [t ! j] = letter (ls ! j) then MATCH else state (ls ! j))"
      proof (cases "j = i")
        case True
        with ih(3) j \<open>i < length t \<and> [t ! i] = letter (ls ! i)\<close> show ?thesis by simp
      next
        case False
        with ih(3) j show ?thesis by (auto simp: nth_list_update)
      qed
    qed
    ultimately show ?thesis using ih by simp
  next
    case False
    with i Suc.prems have run: "first_pass (Suc i) ls t = (ls', t')"
      by (simp add: first_pass_unfold [of i ls t])
    have "n = length ls - Suc i" using Suc.hyps(2) by simp
    from Suc.hyps(1) [OF this run]
    have ih: "length ls' = length ls" "map letter ls' = map letter ls"
      "\<forall>j < length ls. state (ls' ! j) =
        (if Suc i \<le> j \<and> j < length t \<and> [t ! j] = letter (ls ! j) then MATCH else state (ls ! j))"
      by simp_all
    have "\<forall>j < length ls. state (ls' ! j) =
        (if i \<le> j \<and> j < length t \<and> [t ! j] = letter (ls ! j) then MATCH else state (ls ! j))"
    proof (intro allI impI)
      fix j assume j: "j < length ls"
      show "state (ls' ! j) =
        (if i \<le> j \<and> j < length t \<and> [t ! j] = letter (ls ! j) then MATCH else state (ls ! j))"
      proof (cases "j = i")
        case True
        with ih(3) j False show ?thesis by auto
      next
        case ne: False
        with ih(3) j show ?thesis by auto
      qed
    qed
    with ih show ?thesis by simp
  qed
qed

lemma first_pass_credit:
  assumes "c \<noteq> ''_''"
  shows "first_pass i ls t = (ls', t') \<Longrightarrow>
     \<forall>j. i \<le> j \<and> j < length ls \<longrightarrow> state (ls ! j) = INVALID \<Longrightarrow>
     credited c ls' + occurrences c t' = credited c ls + occurrences c t"
proof (induction "length ls - i" arbitrary: i ls t)
  case 0
  then show ?case by (simp add: first_pass_unfold [of i ls t])
next
  case (Suc n)
  then have i: "i < length ls" by simp
  with Suc.prems(2) have inv: "state (ls ! i) = INVALID" by simp
  show ?case
  proof (cases "i < length t \<and> [t ! i] = letter (ls ! i)")
    case True
    let ?ls = "ls[i := (ls ! i)\<lparr>state := MATCH\<rparr>]"
    let ?t = "t[i := CHR ''_'']"
    from True i Suc.prems(1) have run: "first_pass (Suc i) ?ls ?t = (ls', t')"
      by (simp add: first_pass_unfold [of i ls t])
    have n: "n = length ?ls - Suc i" using Suc.hyps(2) by simp
    have rest: "\<forall>j. Suc i \<le> j \<and> j < length ?ls \<longrightarrow> state (?ls ! j) = INVALID"
      using Suc.prems(2) by simp
    have ih: "credited c ls' + occurrences c t' = credited c ?ls + occurrences c ?t"
      by (rule Suc.hyps(1) [OF n run rest])
    have a: "credited c ?ls = credited c ls + (if letter (ls ! i) = c then 1 else 0)"
      using count_update [OF i, of "\<lambda>l. letter l = c \<and> (state l = MATCH \<or> state l = POSITION)"
          "(ls ! i)\<lparr>state := MATCH\<rparr>"] inv
      by (simp add: credited_def)
    have b: "occurrences c ?t + (if letter (ls ! i) = c then 1 else 0) = occurrences c t"
      using count_update [of i t "\<lambda>e. [e] = c" "CHR ''_''"] True assms
      by (auto simp: occurrences_def)
    from ih a b show ?thesis by simp
  next
    case False
    with i Suc.prems(1) have run: "first_pass (Suc i) ls t = (ls', t')"
      by (simp add: first_pass_unfold [of i ls t])
    have n: "n = length ls - Suc i" using Suc.hyps(2) by simp
    have rest: "\<forall>j. Suc i \<le> j \<and> j < length ls \<longrightarrow> state (ls ! j) = INVALID"
      using Suc.prems(2) by simp
    show ?thesis by (rule Suc.hyps(1) [OF n run rest])
  qed
qed


lemma second_pass_state:
  "second_pass i ls t = (ls', t') \<Longrightarrow>
     length ls' = length ls \<and> map letter ls' = map letter ls \<and>
     (\<forall>j < length ls. state (ls' ! j) = MATCH \<longleftrightarrow> state (ls ! j) = MATCH)"
proof (induction "length ls - i" arbitrary: i ls t)
  case 0
  then have "ls' = ls" by (simp add: second_pass_unfold [of i ls t])
  then show ?case by simp
next
  case (Suc n)
  then have i: "i < length ls" by simp
  show ?case
  proof (cases "state (ls ! i) = MATCH")
    case True
    with i Suc.prems have run: "second_pass (Suc i) ls t = (ls', t')"
      by (simp add: second_pass_unfold [of i ls t])
    have n: "n = length ls - Suc i" using Suc.hyps(2) by simp
    show ?thesis by (rule Suc.hyps(1) [OF n run])
  next
    case False
    obtain s t2 where run: "second_pass (Suc i) (ls[i := (ls ! i)\<lparr>state := s\<rparr>]) t2 = (ls', t')"
      and s: "s \<noteq> MATCH"
      using False i Suc.prems
      by (auto simp: second_pass_unfold [of i ls t] split: option.splits)
    let ?ls = "ls[i := (ls ! i)\<lparr>state := s\<rparr>]"
    have n: "n = length ?ls - Suc i" using Suc.hyps(2) by simp
    from Suc.hyps(1) [OF n run]
    have ih: "length ls' = length ?ls" "map letter ls' = map letter ?ls"
      "\<forall>j < length ?ls. state (ls' ! j) = MATCH \<longleftrightarrow> state (?ls ! j) = MATCH"
      by simp_all
    have "map letter ?ls = map letter ls"
      using i by (simp add: map_update list_update_same_conv)
    moreover have "\<forall>j < length ls. state (ls' ! j) = MATCH \<longleftrightarrow> state (ls ! j) = MATCH"
    proof (intro allI impI)
      fix j assume j: "j < length ls"
      show "state (ls' ! j) = MATCH \<longleftrightarrow> state (ls ! j) = MATCH"
      proof (cases "j = i")
        case True
        with ih(3) j s False show ?thesis by simp
      next
        case ne: False
        with ih(3) j show ?thesis by simp
      qed
    qed
    ultimately show ?thesis using ih by simp
  qed
qed

lemma second_pass_credit:
  assumes "c \<noteq> ''_''"
  shows "second_pass i ls t = (ls', t') \<Longrightarrow>
     \<forall>j. i \<le> j \<and> j < length ls \<longrightarrow> state (ls ! j) \<noteq> POSITION \<Longrightarrow>
     credited c ls' + occurrences c t' = credited c ls + occurrences c t"
proof (induction "length ls - i" arbitrary: i ls t)
  case 0
  then show ?case by (simp add: second_pass_unfold [of i ls t])
next
  case (Suc n)
  then have i: "i < length ls" by simp
  with Suc.prems(2) have np: "state (ls ! i) \<noteq> POSITION" by simp
  show ?case
  proof (cases "state (ls ! i) = MATCH")
    case True
    with i Suc.prems(1) have run: "second_pass (Suc i) ls t = (ls', t')"
      by (simp add: second_pass_unfold [of i ls t])
    have n: "n = length ls - Suc i" using Suc.hyps(2) by simp
    have rest: "\<forall>j. Suc i \<le> j \<and> j < length ls \<longrightarrow> state (ls ! j) \<noteq> POSITION"
      using Suc.prems(2) by simp
    show ?thesis by (rule Suc.hyps(1) [OF n run rest])
  next
    case False
    show ?thesis
    proof (cases "findIndex t (letter (ls ! i))")
      case None
      let ?ls = "ls[i := (ls ! i)\<lparr>state := INVALID\<rparr>]"
      from None False i Suc.prems(1) have run: "second_pass (Suc i) ?ls t = (ls', t')"
        by (simp add: second_pass_unfold [of i ls t])
      have n: "n = length ?ls - Suc i" using Suc.hyps(2) by simp
      have rest: "\<forall>j. Suc i \<le> j \<and> j < length ?ls \<longrightarrow> state (?ls ! j) \<noteq> POSITION"
        using Suc.prems(2) by simp
      have ih: "credited c ls' + occurrences c t' = credited c ?ls + occurrences c t"
        by (rule Suc.hyps(1) [OF n run rest])
      have "credited c ?ls = credited c ls"
        using count_update [OF i, of "\<lambda>l. letter l = c \<and> (state l = MATCH \<or> state l = POSITION)"
            "(ls ! i)\<lparr>state := INVALID\<rparr>"] False np
        by (simp add: credited_def)
      with ih show ?thesis by simp
    next
      case (Some k)
      let ?ls = "ls[i := (ls ! i)\<lparr>state := POSITION\<rparr>]"
      let ?t = "t[k := CHR ''_'']"
      from findIndex_Some [OF Some] have k: "k < length t" "[t ! k] = letter (ls ! i)"
        by simp_all
      from Some False i Suc.prems(1) have run: "second_pass (Suc i) ?ls ?t = (ls', t')"
        by (simp add: second_pass_unfold [of i ls t])
      have n: "n = length ?ls - Suc i" using Suc.hyps(2) by simp
      have rest: "\<forall>j. Suc i \<le> j \<and> j < length ?ls \<longrightarrow> state (?ls ! j) \<noteq> POSITION"
        using Suc.prems(2) by simp
      have ih: "credited c ls' + occurrences c t' = credited c ?ls + occurrences c ?t"
        by (rule Suc.hyps(1) [OF n run rest])
      have a: "credited c ?ls = credited c ls + (if letter (ls ! i) = c then 1 else 0)"
        using count_update [OF i, of "\<lambda>l. letter l = c \<and> (state l = MATCH \<or> state l = POSITION)"
            "(ls ! i)\<lparr>state := POSITION\<rparr>"] False np
        by (simp add: credited_def)
      have b: "occurrences c ?t + (if letter (ls ! i) = c then 1 else 0) = occurrences c t"
        using count_update [OF k(1), of "\<lambda>e. [e] = c" "CHR ''_''"] k(2) assms
        by (auto simp: occurrences_def)
      from ih a b show ?thesis by simp
    qed
  qed
qed


lemma evaluate_fresh:
  assumes fresh: "\<forall>l \<in> set ls. state l = INVALID"
  shows "length (evaluate ls t) = length ls"
    and "map letter (evaluate ls t) = map letter ls"
    and "\<forall>j < length ls. state (evaluate ls t ! j) = MATCH \<longleftrightarrow>
           j < length t \<and> [t ! j] = letter (ls ! j)"
    and "c \<noteq> ''_'' \<Longrightarrow> credited c (evaluate ls t) \<le> occurrences c t"
proof -
  obtain ls1 t1 where p1: "first_pass 0 ls t = (ls1, t1)" by (cases "first_pass 0 ls t")
  obtain ls2 t2 where p2: "second_pass 0 ls1 t1 = (ls2, t2)" by (cases "second_pass 0 ls1 t1")
  have ev: "evaluate ls t = ls2" by (simp add: evaluate_def p1 p2)
  from first_pass_state [OF p1]
  have f: "length ls1 = length ls" "map letter ls1 = map letter ls"
    "\<forall>j < length ls. state (ls1 ! j) =
        (if j < length t \<and> [t ! j] = letter (ls ! j) then MATCH else state (ls ! j))"
    by simp_all
  from second_pass_state [OF p2]
  have s: "length ls2 = length ls1" "map letter ls2 = map letter ls1"
    "\<forall>j < length ls1. state (ls2 ! j) = MATCH \<longleftrightarrow> state (ls1 ! j) = MATCH"
    by simp_all
  show "length (evaluate ls t) = length ls" using ev f(1) s(1) by simp
  show "map letter (evaluate ls t) = map letter ls" using ev f(2) s(2) by simp
  show "\<forall>j < length ls. state (evaluate ls t ! j) = MATCH \<longleftrightarrow>
           j < length t \<and> [t ! j] = letter (ls ! j)"
    using ev f(1) f(3) s(3) fresh by auto
  show "credited c (evaluate ls t) \<le> occurrences c t" if c: "c \<noteq> ''_''"
  proof -
    have inv0: "\<forall>j. 0 \<le> j \<and> j < length ls \<longrightarrow> state (ls ! j) = INVALID"
      using fresh by simp
    have np: "\<forall>j. 0 \<le> j \<and> j < length ls1 \<longrightarrow> state (ls1 ! j) \<noteq> POSITION"
      using f(1) f(3) fresh by auto
    have "credited c ls = 0"
      using fresh by (auto simp: credited_def filter_empty_conv)
    with first_pass_credit [OF c p1 inv0] second_pass_credit [OF c p2 np] ev
    show ?thesis by simp
  qed
qed

lemma marked_matching:
  assumes "length ls' = length g"
    and "\<forall>j < length g. state (ls' ! j) = MATCH \<longleftrightarrow> j < length t \<and> [t ! j] = g ! j"
  shows "length (filter (\<lambda>l. state l = MATCH) ls') = matching g t"
proof -
  have "{i. i < length ls' \<and> state (ls' ! i) = MATCH}
      = {i. i < length [0..<length g] \<and>
            ([0..<length g] ! i < length t \<and> [t ! ([0..<length g] ! i)] = g ! ([0..<length g] ! i))}"
    using assms by auto
  then show ?thesis
    unfolding matching_def length_filter_conv_card by simp
qed

lemma add_open_row:
  assumes "complete s = Incomplete" and "rows s \<noteq> []"
    and "length (normalise (last (rows s))) < width (last (rows s))"
  shows "add s w h l = s\<lparr>rows := butlast (rows s) @
           [(last (rows s))\<lparr>letters := Some (normalise (last (rows s)) @ [\<lparr>letter = l, state = INVALID\<rparr>])\<rparr>]\<rparr>"
  using assms by (simp add: add_def Let_def)

lemma typing_fills_row:
  "complete s = Incomplete \<Longrightarrow> rows s \<noteq> [] \<Longrightarrow>
   length (normalise (last (rows s))) + length g \<le> width (last (rows s)) \<Longrightarrow>
   complete (foldl (\<lambda>b l. add b w h l) s g) = Incomplete \<and>
   target (foldl (\<lambda>b l. add b w h l) s g) = target s \<and>
   rows (foldl (\<lambda>b l. add b w h l) s g) \<noteq> [] \<and>
   butlast (rows (foldl (\<lambda>b l. add b w h l) s g)) = butlast (rows s) \<and>
   width (last (rows (foldl (\<lambda>b l. add b w h l) s g))) = width (last (rows s)) \<and>
   normalise (last (rows (foldl (\<lambda>b l. add b w h l) s g))) = normalise (last (rows s)) @ typed g"
proof (induction g arbitrary: s)
  case Nil
  then show ?case by (simp add: typed_def)
next
  case (Cons l g)
  let ?s = "add s w h l"
  have eq: "?s = s\<lparr>rows := butlast (rows s) @
           [(last (rows s))\<lparr>letters := Some (normalise (last (rows s)) @ [\<lparr>letter = l, state = INVALID\<rparr>])\<rparr>]\<rparr>"
    using Cons.prems by (intro add_open_row) simp_all
  have a: "complete ?s = Incomplete" "rows ?s \<noteq> []" "target ?s = target s"
    "butlast (rows ?s) = butlast (rows s)" "width (last (rows ?s)) = width (last (rows s))"
    "normalise (last (rows ?s)) = normalise (last (rows s)) @ [\<lparr>letter = l, state = INVALID\<rparr>]"
    using Cons.prems(1) by (simp_all add: eq normalise_def)
  have "length (normalise (last (rows ?s))) + length g \<le> width (last (rows ?s))"
    using Cons.prems(3) a by simp
  from Cons.IH [OF a(1) a(2) this] a show ?case by (simp add: typed_def)
qed

section \<open>Typing a guess and committing it\<close>

lemma enter_full_row:
  assumes "rows s \<noteq> []" and "length (normalise (last (rows s))) = width (last (rows s))"
  shows "enter s w h =
     (let ls' = evaluate (normalise (last (rows s))) (target s);
          rs = butlast (rows s) @ [(last (rows s))\<lparr>letters := Some ls'\<rparr>]
      in if list_all (\<lambda>e. state e = MATCH) ls' then Inr (s\<lparr>rows := rs, complete := SUCCESS\<rparr>)
         else if h \<le> length (rows s) then Inr (s\<lparr>rows := rs, complete := FAIL\<rparr>)
         else Inr (s\<lparr>rows := rs @ [\<lparr>width = w, letters = Some []\<rparr>]\<rparr>))"
  using assms by (simp add: enter_def Let_def)

lemma enter_committed_row:
  assumes "rows s \<noteq> []" and "length (normalise (last (rows s))) = width (last (rows s))"
  shows "\<exists>s'. enter s w h = Inr s' \<and>
           letters (rows s' ! (length (rows s) - 1)) =
             Some (evaluate (normalise (last (rows s))) (target s))"
proof -
  have n: "length (rows s) - 1 = length (butlast (rows s))" by simp
  show ?thesis
    unfolding enter_full_row [OF assms] Let_def n
    by (simp add: nth_append)
qed

text \<open>
  \<open>enter\<close> leaves a board alone when the open row has its letter list and that list
  does not fill the row.
\<close>

lemma enter_short_row:
  assumes "rows s \<noteq> []" and "letters (last (rows s)) = Some ls"
    and "length ls \<noteq> width (last (rows s))"
  shows "enter s w h = Inr s"
proof -
  have "(last (rows s))\<lparr>letters := Some ls\<rparr> = last (rows s)" using assms(2) by simp
  then have "butlast (rows s) @ [(last (rows s))\<lparr>letters := Some ls\<rparr>] = rows s"
    using assms(1) by simp
  then show ?thesis using assms by (simp add: enter_def normalise_def Let_def)
qed

text \<open>
  \<open>add\<close> and \<open>remove\<close> both return at once on a finished board.
\<close>

lemma add_finished: "complete s \<noteq> Incomplete \<Longrightarrow> add s w h l = s"
  by (simp add: add_def)

lemma remove_finished: "complete s \<noteq> Incomplete \<Longrightarrow> remove s = s"
  by (simp add: remove_def)

section \<open>Scoring of a committed guess\<close>

text \<open>
  A guess typed with \<open>add\<close> into an empty open row and committed: the bound on the
  credits holds for every string other than the masking sentinel.
\<close>

lemma enter_scores_typed_guess:
  assumes "complete s = Incomplete" and "rows s \<noteq> []"
    and "normalise (last (rows s)) = []" and "width (last (rows s)) = length g"
  shows "\<exists>s' ls. enter (foldl (\<lambda>b l. add b w h l) s g) w h = Inr s' \<and>
           letters (rows s' ! (length (rows s) - 1)) = Some ls \<and> map letter ls = g \<and>
           length (filter (\<lambda>l. state l = MATCH) ls) = matching g (target s) \<and>
           (\<forall>c. c \<noteq> ''_'' \<or> ''_'' \<notin> set g \<longrightarrow> credited c ls \<le> occurrences c (target s))"
proof -
  let ?s1 = "foldl (\<lambda>b l. add b w h l) s g"
  have fill: "length (normalise (last (rows s))) + length g \<le> width (last (rows s))"
    using assms(3,4) by simp
  from typing_fills_row [OF assms(1,2) fill, of w h]
  have t: "target ?s1 = target s" "rows ?s1 \<noteq> []" "butlast (rows ?s1) = butlast (rows s)"
    "width (last (rows ?s1)) = length g" "normalise (last (rows ?s1)) = typed g"
    using assms(3,4) by simp_all
  have len: "length (rows ?s1) = length (rows s)"
    using t(2,3) assms(2) by (metis length_butlast Suc_diff_1 length_greater_0_conv)
  have full: "length (normalise (last (rows ?s1))) = width (last (rows ?s1))"
    using t(4,5) by (simp add: typed_def)
  from enter_committed_row [OF t(2) full, of w h] obtain s' where
    s': "enter ?s1 w h = Inr s'"
      "letters (rows s' ! (length (rows s) - 1)) = Some (evaluate (typed g) (target s))"
    using t(1,5) len by auto
  let ?ls = "evaluate (typed g) (target s)"
  have fresh: "\<forall>l \<in> set (typed g). state l = INVALID" by (auto simp: typed_def)
  have tg: "map letter (typed g) = g" "length (typed g) = length g"
    by (simp_all add: typed_def comp_def)
  have letters: "map letter ?ls = g" using evaluate_fresh(2) [OF fresh] tg by simp
  have "\<forall>j < length g. state (?ls ! j) = MATCH \<longleftrightarrow> j < length (target s) \<and> [target s ! j] = g ! j"
    using evaluate_fresh(3) [OF fresh, of "target s"] tg by (simp add: typed_def)
  moreover have "length ?ls = length g" using evaluate_fresh(1) [OF fresh] tg by simp
  ultimately have m: "length (filter (\<lambda>l. state l = MATCH) ?ls) = matching g (target s)"
    by (intro marked_matching) simp_all
  have c: "credited c ?ls \<le> occurrences c (target s)" if "c \<noteq> ''_'' \<or> ''_'' \<notin> set g" for c
  proof (cases "c = ''_''")
    case False
    then show ?thesis by (rule evaluate_fresh(4) [OF fresh])
  next
    case True
    with that have "c \<notin> set (map letter ?ls)" using letters by simp
    then have "credited c ?ls = 0" by (auto simp: credited_def filter_empty_conv)
    then show ?thesis by simp
  qed
  from s' letters m c show ?thesis by blast
qed

text \<open>
  C1. A guess \<open>g\<close> of letters (none of them is the character \<open>_\<close>, which no word has)
  is typed with \<open>add\<close> into an empty open row of width \<open>length g\<close> of an incomplete board
  and committed with \<open>enter\<close>. Then \<open>enter\<close> returns normally, the committed row holds
  the letters of \<open>g\<close>, the number of positions marked \<open>MATCH\<close> is the number of positions
  where the guess holds the character the target has there, and for every \<open>c\<close> the number
  of positions that hold \<open>c\<close> and are marked \<open>MATCH\<close> or \<open>POSITION\<close> is at most the number of
  occurrences of \<open>c\<close> in the target. This holds for a target of the same length as the
  guess and for any other.
\<close>

theorem enter_scores_guess:
  assumes "complete s = Incomplete" and "rows s \<noteq> []"
    and "normalise (last (rows s)) = []" and "width (last (rows s)) = length g"
    and "''_'' \<notin> set g"
  shows "\<exists>s' ls. enter (foldl (\<lambda>b l. add b w h l) s g) w h = Inr s' \<and>
           letters (rows s' ! (length (rows s) - 1)) = Some ls \<and> map letter ls = g \<and>
           length (filter (\<lambda>l. state l = MATCH) ls) = matching g (target s) \<and>
           (\<forall>c. credited c ls \<le> occurrences c (target s))"
  using enter_scores_typed_guess [OF assms(1-4), of w h] assms(5) by simp

text \<open>
  C1, witness: the guess LLAMA typed on a board with target ALLOW.
\<close>

theorem enter_scores_guess_witness:
  "\<exists>s' ls. enter (foldl (\<lambda>b l. add b 5 6 l)
                   \<lparr>rows = [\<lparr>width = 5, letters = Some []\<rparr>], complete = Incomplete,
                    target = ''ALLOW''\<rparr> [''L'', ''L'', ''A'', ''M'', ''A'']) 5 6 = Inr s' \<and>
           letters (rows s' ! 0) = Some ls \<and> map letter ls = [''L'', ''L'', ''A'', ''M'', ''A''] \<and>
           length (filter (\<lambda>l. state l = MATCH) ls) = matching [''L'', ''L'', ''A'', ''M'', ''A''] ''ALLOW'' \<and>
           (\<forall>c. credited c ls \<le> occurrences c ''ALLOW'')"
  using enter_scores_guess [of "\<lparr>rows = [\<lparr>width = 5, letters = Some []\<rparr>], complete = Incomplete,
                    target = ''ALLOW''\<rparr>" "[''L'', ''L'', ''A'', ''M'', ''A'']" 5 6]
  by (simp add: normalise_def)

section \<open>The scenario CRANE and TRACE\<close>

lemma evaluate_trace_crane:
  "map state (evaluate (typed [''T'', ''R'', ''A'', ''C'', ''E'']) ''CRANE'')
     = [INVALID, MATCH, MATCH, POSITION, MATCH]"
  by code_simp

text \<open>
  C2, as the code has it. On every incomplete board with target CRANE whose open row
  holds the letters T, R, A, C, E as \<open>add\<close> stores them, for every width and height
  argument, \<open>enter\<close> marks the five positions
  \<open>[INVALID, MATCH, MATCH, POSITION, MATCH]\<close>: the A of the guess stands where the A of
  the target stands.
\<close>

theorem enter_trace_on_crane:
  "\<exists>s'. enter \<lparr>rows = rs @ [\<lparr>width = 5, letters = Some (typed [''T'', ''R'', ''A'', ''C'', ''E''])\<rparr>],
                 complete = Incomplete, target = ''CRANE''\<rparr> w h = Inr s' \<and>
        map state (normalise (rows s' ! length rs)) = [INVALID, MATCH, MATCH, POSITION, MATCH]"
proof -
  let ?s = "\<lparr>rows = rs @ [\<lparr>width = 5, letters = Some (typed [''T'', ''R'', ''A'', ''C'', ''E''])\<rparr>],
                 complete = Incomplete, target = ''CRANE''\<rparr>"
  have "rows ?s \<noteq> []" by simp
  moreover have "length (normalise (last (rows ?s))) = width (last (rows ?s))"
    by (simp add: normalise_def typed_def)
  ultimately obtain s' where "enter ?s w h = Inr s'"
    "letters (rows s' ! (length (rows ?s) - 1)) =
       Some (evaluate (normalise (last (rows ?s))) (target ?s))"
    using enter_committed_row by blast
  then show ?thesis
    using evaluate_trace_crane by (auto simp: normalise_def)
qed

text \<open>
  C2, counterexample: on the board with that one row the marks are not
  \<open>[INVALID, MATCH, POSITION, POSITION, MATCH]\<close>.
\<close>

theorem enter_trace_on_crane_third_is_match:
  "\<not> isl (enter \<lparr>rows = [\<lparr>width = 5, letters = Some (typed [''T'', ''R'', ''A'', ''C'', ''E''])\<rparr>],
                   complete = Incomplete, target = ''CRANE''\<rparr> 5 6) \<and>
   map state (normalise (rows (projr (enter
       \<lparr>rows = [\<lparr>width = 5, letters = Some (typed [''T'', ''R'', ''A'', ''C'', ''E''])\<rparr>],
        complete = Incomplete, target = ''CRANE''\<rparr> 5 6)) ! 0))
     \<noteq> [INVALID, MATCH, POSITION, POSITION, MATCH]"
  by code_simp

section \<open>Finished boards\<close>











section \<open>Completion\<close>

text \<open>
  C4. On an incomplete board whose open row is full, \<open>enter\<close> returns normally and
  commits the row (the earlier rows and the target are unchanged). If every letter of
  the committed row is marked \<open>MATCH\<close>, \<open>complete\<close> is \<open>SUCCESS\<close>, whatever the height;
  otherwise, if the number of rows has reached the height, \<open>complete\<close> is \<open>FAIL\<close>; otherwise
  the board stays incomplete and a new empty open row of the given width is appended.
\<close>

theorem enter_completion:
  assumes "complete s = Incomplete" and "rows s \<noteq> []"
    and "length (normalise (last (rows s))) = width (last (rows s))"
  shows "\<exists>s' ls. enter s w h = Inr s' \<and> target s' = target s \<and>
           take (length (rows s) - 1) (rows s') = butlast (rows s) \<and>
           letters (rows s' ! (length (rows s) - 1)) = Some ls \<and>
           (if list_all (\<lambda>e. state e = MATCH) ls
            then complete s' = SUCCESS \<and> length (rows s') = length (rows s)
            else if h \<le> length (rows s)
            then complete s' = FAIL \<and> length (rows s') = length (rows s)
            else complete s' = Incomplete \<and> length (rows s') = length (rows s) + 1 \<and>
                 last (rows s') = \<lparr>width = w, letters = Some []\<rparr>)"
proof -
  have n: "length (rows s) - 1 = length (butlast (rows s))" by simp
  show ?thesis
    unfolding enter_full_row [OF assms(2,3)] Let_def n
    using assms(1,2) by (simp add: nth_append)
qed

text \<open>
  C4, witness: the guess AC against AB with one guess allowed ends in \<open>FAIL\<close>.
\<close>

theorem enter_completion_witness:
  "\<exists>s' ls. enter \<lparr>rows = [\<lparr>width = 2, letters = Some (typed [''A'', ''C''])\<rparr>],
                    complete = Incomplete, target = ''AB''\<rparr> 2 1 = Inr s' \<and>
           letters (rows s' ! 0) = Some ls \<and> \<not> list_all (\<lambda>e. state e = MATCH) ls \<and>
           complete s' = FAIL \<and> length (rows s') = 1"
proof -
  let ?s = "\<lparr>rows = [\<lparr>width = 2, letters = Some (typed [''A'', ''C''])\<rparr>],
                    complete = Incomplete, target = ''AB''\<rparr>"
  have h: "complete ?s = Incomplete" "rows ?s \<noteq> []"
    "length (normalise (last (rows ?s))) = width (last (rows ?s))"
    by (simp_all add: normalise_def typed_def)
  have e: "map state (evaluate (typed [''A'', ''C'']) ''AB'') = [MATCH, INVALID]" by code_simp
  from enter_completion [OF h, of 2 1] obtain s' ls where
    r: "enter ?s 2 1 = Inr s'" "letters (rows s' ! 0) = Some ls"
     "(if list_all (\<lambda>e. state e = MATCH) ls
            then complete s' = SUCCESS \<and> length (rows s') = length (rows ?s)
            else if 1 \<le> length (rows ?s)
            then complete s' = FAIL \<and> length (rows s') = length (rows ?s)
            else complete s' = Incomplete \<and> length (rows s') = length (rows ?s) + 1 \<and>
                 last (rows s') = \<lparr>width = 2, letters = Some []\<rparr>)"
    by auto
  from enter_committed_row [OF h(2,3), of 2 1] r(1,2)
  have "ls = evaluate (typed [''A'', ''C'']) ''AB''" by (simp add: normalise_def)
  with e have "map state ls = [MATCH, INVALID]" by simp
  then have "\<not> list_all (\<lambda>e. state e = MATCH) ls" by (auto simp: list_all_iff)
  with r show ?thesis by auto
qed

section \<open>Enter on a board with no rows\<close>

lemma enter_no_rows: "rows s = [] \<Longrightarrow> enter s w h = Inl TypeError"
  by (simp add: enter_def)

text \<open>
  C5, the evaluation of \<open>enter\<close> on an incomplete board with no rows: the read of the
  last row throws.
\<close>

theorem enter_without_rows:
  "enter \<lparr>rows = [], complete = Incomplete, target = ''CRANE''\<rparr> 5 6 = Inl TypeError"
  by (simp add: enter_def)

section \<open>Adding and removing a letter\<close>

text \<open>
  C6, as the code has it. On an incomplete board that has an open row whose letter list
  is present and shorter than the width of the row, \<open>add\<close> followed by \<open>remove\<close> gives
  back the board: the state after the round trip, and with it the rows sequence, is the
  state before.
\<close>

theorem add_then_remove:
  assumes "complete s = Incomplete" and "rows s \<noteq> []"
    and "letters (last (rows s)) = Some ls" and "length ls < width (last (rows s))"
  shows "remove (add s w h l) = s"
proof -
  have "(last (rows s))\<lparr>letters := Some ls\<rparr> = last (rows s)" using assms(3) by simp
  then have "butlast (rows s) @ [(last (rows s))\<lparr>letters := Some ls\<rparr>] = rows s"
    using assms(2) by simp
  then show ?thesis using assms by (simp add: add_def remove_def normalise_def Let_def)
qed

text \<open>
  C6, witness: a row of width 2 that holds one letter.
\<close>

theorem add_then_remove_witness:
  "remove (add \<lparr>rows = [\<lparr>width = 2, letters = Some (typed [''A''])\<rparr>], complete = Incomplete,
                target = ''AB''\<rparr> 2 6 ''C'')
   = \<lparr>rows = [\<lparr>width = 2, letters = Some (typed [''A''])\<rparr>], complete = Incomplete,
      target = ''AB''\<rparr>"
  using add_then_remove [of "\<lparr>rows = [\<lparr>width = 2, letters = Some (typed [''A''])\<rparr>],
      complete = Incomplete, target = ''AB''\<rparr>" "typed [''A'']" 2 6 "''C''"]
  by (simp add: typed_def)

text \<open>
  C6, counterexample: on a full open row \<open>add\<close> returns without adding and \<open>remove\<close>
  then drops the last letter of the row; on a board with no rows \<open>add\<close> pushes a row,
  which \<open>remove\<close> leaves behind, empty; an open row without a letter list comes back
  with the empty list.
\<close>

theorem add_then_remove_on_full_row:
  "rows (remove (add \<lparr>rows = [\<lparr>width = 2, letters = Some (typed [''A'', ''B''])\<rparr>],
                      complete = Incomplete, target = ''AB''\<rparr> 2 6 ''C''))
   \<noteq> rows \<lparr>rows = [\<lparr>width = 2, letters = Some (typed [''A'', ''B''])\<rparr>],
            complete = Incomplete, target = ''AB''\<rparr> \<and>
   rows (remove (add \<lparr>rows = [], complete = Incomplete, target = ''AB''\<rparr> 2 6 ''C''))
   \<noteq> rows \<lparr>rows = [], complete = Incomplete, target = ''AB''\<rparr> \<and>
   rows (remove (add \<lparr>rows = [\<lparr>width = 2, letters = None\<rparr>],
                      complete = Incomplete, target = ''AB''\<rparr> 2 6 ''C''))
   \<noteq> rows \<lparr>rows = [\<lparr>width = 2, letters = None\<rparr>], complete = Incomplete, target = ''AB''\<rparr>"
  by (simp add: add_def remove_def normalise_def typed_def)

section \<open>The transport\<close>

text \<open>
  C9. \<open>send\<close> throws the error "not open" exactly when the ready flag is unset or no
  data channel is stored; when it throws, the transport is left as it was, so nothing
  is handed to a channel, queued or retried; when it does not throw, the value is handed
  to the channel.
\<close>

theorem send_not_open:
  "(fst (send c v) = Some NotOpen \<longleftrightarrow> \<not> isReady c \<or> dataChannel c = None) \<and>
   (fst (send c v) = Some NotOpen \<longrightarrow> snd (send c v) = c) \<and>
   (fst (send c v) \<noteq> Some NotOpen \<longrightarrow>
      fst (send c v) = None \<and>
      (\<exists>sent. dataChannel c = Some sent \<and> snd (send c v) = c\<lparr>dataChannel := Some (sent @ [v])\<rparr>))"
  by (auto simp: send_def)

text \<open>
  C9, witness: the flag is set but the channel created on \<open>init\<close> has not opened yet.
\<close>

theorem send_not_open_witness:
  "fst (send \<lparr>isReady = True, dataChannel = None\<rparr> ''request'') = Some NotOpen \<and>
   snd (send \<lparr>isReady = True, dataChannel = None\<rparr> ''request'')
     = \<lparr>isReady = True, dataChannel = None\<rparr>"
  using send_not_open [of "\<lparr>isReady = True, dataChannel = None\<rparr>" "''request''"]
  by simp

section \<open>The two guards of onEnter\<close>

lemma onEnter_rejected:
  assumes "\<not> (length (activeGuess g) = letterCount g \<and> activeGuess g \<in> set vw)"
  shows "onEnter g vw = Inr (Game g)"
  using assms by (cases "length (activeGuess g) = letterCount g") (simp_all add: onEnter_def)

lemma onEnter_passed:
  assumes "length (activeGuess g) = letterCount g" and "activeGuess g \<in> set vw"
  shows "onEnter g vw =
     (case map_result (\<lambda>e. if complete e \<noteq> Incomplete then Inr e
                            else enter e (letterCount g) (guessesAllowed g)) (states g) of
        Inl e \<Rightarrow> Inl e
      | Inr sts \<Rightarrow>
          if list_all (\<lambda>e. complete e \<noteq> Incomplete) sts
          then Inr (Win \<lparr>winLetterCount = letterCount g,
                         winGuessesAllowed = guessesAllowed g,
                         winColumns = columns g,
                         records = map (\<lambda>e. if complete e = SUCCESS
                                              then Some (length (rows e)) else None) sts\<rparr>)
          else Inr (Game (g\<lparr>states := sts, activeGuess := []\<rparr>)))"
  using assms by (simp add: onEnter_def)

section \<open>Replication of key input\<close>

lemma onKey_synthetic:
  "invoked (onKey toUpperCase m e True) = [] \<and>
   communicator (props (component (onKey toUpperCase m e True))) = communicator (props m)"
  by (auto simp: onKey_def and_then_def update_def broadcast_def Let_def
      split: option.splits SessionState.splits sum.splits prod.splits)

lemma update_local:
  assumes "communicator (props m) = Some chat" and "session m = Game g"
  shows "invoked (update m False ev f) = [ev]"
    and "communicator (props (component (update m False ev f))) = Some (snd (send chat ev))"
    and "thrown (update m False ev f) =
          (case fst (send chat ev) of
             Some e \<Rightarrow> Some e
           | None \<Rightarrow> (case f g of Inl x \<Rightarrow> Some (fst x) | Inr s \<Rightarrow> None))"
  using assms
  by (auto simp: update_def broadcast_def Let_def split: prod.splits sum.splits option.splits)

lemma and_then_nothing:
  "and_then r (\<lambda>m'. \<lparr>invoked = [], thrown = None, component = m'\<rparr>) = r"
  by (cases r) (simp add: and_then_def Let_def)

lemma nothing_and_then:
  "and_then \<lparr>invoked = [], thrown = None, component = m\<rparr> f = f m"
  by (simp add: and_then_def Let_def)

text \<open>
  The three \<open>if\<close> statements of \<open>onKey\<close> exclude each other: a key event runs at most
  one updater.
\<close>

lemma onKey_branches:
  "onKey toUpperCase m (Some ev) synthetic =
     (if 65 \<le> keyCode ev \<and> keyCode ev \<le> 90
      then update m synthetic (KeyPressed (toUpperCase (key ev)))
             (\<lambda>g. Inr (Game (addLetter g (toUpperCase (key ev)))))
      else if keyCode ev = 8
      then update m synthetic KeyRemoved (\<lambda>g. Inr (Game (removeLetter g)))
      else if keyCode ev = 13
      then update m synthetic EnterPressed
             (\<lambda>g. case onEnter g (validWords (props m)) of
                    Inl x \<Rightarrow> Inl (x, entered_in_place g)
                  | Inr s \<Rightarrow> Inr s)
      else \<lparr>invoked = [], thrown = None, component = m\<rparr>)"
proof -
  consider "65 \<le> keyCode ev \<and> keyCode ev \<le> 90" | "keyCode ev = 8" | "keyCode ev = 13"
    | "\<not> (65 \<le> keyCode ev \<and> keyCode ev \<le> 90)" "keyCode ev \<noteq> 8" "keyCode ev \<noteq> 13"
    by blast
  then show ?thesis
  proof cases
    case 1
    then show ?thesis by (simp add: onKey_def and_then_nothing)
  next
    case 2
    then show ?thesis by (simp add: onKey_def and_then_nothing nothing_and_then)
  next
    case 3
    then show ?thesis by (simp add: onKey_def and_then_nothing nothing_and_then)
  next
    case 4
    then show ?thesis by (auto simp: onKey_def)
  qed
qed

text \<open>
  C8. A key event handled with the synthetic tag set invokes no method of the
  communicator and leaves the transport as it was. A local key event handled while a communicator is attached and the state
  is a \<open>GameState\<close> invokes exactly one: \<open>keyPressed\<close> with the upper-cased key for a
  letter, \<open>keyRemoved\<close> for backspace, \<open>enterPressed\<close> for enter (and none for any other
  key code). When the transport is open that one event is what the data channel is
  handed; when it is not, the transport is left as it was.
\<close>

theorem onKey_replication:
  "invoked (onKey toUpperCase m e True) = [] \<and>
   communicator (props (component (onKey toUpperCase m e True))) = communicator (props m) \<and>
   (communicator (props m) = Some chat \<and> session m = Game g \<longrightarrow>
      invoked (onKey toUpperCase m (Some ev) False) =
        (if 65 \<le> keyCode ev \<and> keyCode ev \<le> 90 then [KeyPressed (toUpperCase (key ev))]
         else if keyCode ev = 8 then [KeyRemoved]
         else if keyCode ev = 13 then [EnterPressed]
         else []) \<and>
      communicator (props (component (onKey toUpperCase m (Some ev) False))) =
        (if isReady chat \<and> dataChannel chat \<noteq> None
         then Some (chat\<lparr>dataChannel :=
                map_option (\<lambda>sent. sent @ invoked (onKey toUpperCase m (Some ev) False)) (dataChannel chat)\<rparr>)
         else Some chat))"
proof (intro conjI impI)
  show "invoked (onKey toUpperCase m e True) = []" using onKey_synthetic by (rule conjunct1)
next
  show "communicator (props (component (onKey toUpperCase m e True))) = communicator (props m)"
    using onKey_synthetic by (rule conjunct2)
next
  assume a: "communicator (props m) = Some chat \<and> session m = Game g"
  then show "invoked (onKey toUpperCase m (Some ev) False) =
        (if 65 \<le> keyCode ev \<and> keyCode ev \<le> 90 then [KeyPressed (toUpperCase (key ev))]
         else if keyCode ev = 8 then [KeyRemoved]
         else if keyCode ev = 13 then [EnterPressed]
         else [])"
    by (simp add: onKey_branches update_local(1))
  from a show "communicator (props (component (onKey toUpperCase m (Some ev) False))) =
        (if isReady chat \<and> dataChannel chat \<noteq> None
         then Some (chat\<lparr>dataChannel :=
                map_option (\<lambda>sent. sent @ invoked (onKey toUpperCase m (Some ev) False)) (dataChannel chat)\<rparr>)
         else Some chat)"
    by (auto simp: onKey_branches update_local(1,2) send_def)
qed

text \<open>
  C8, witness: the key \<open>A\<close> on a fresh game with an open transport, replicated and
  local.
\<close>

theorem onKey_replication_witness:
  "invoked (onKey (\<lambda>k. k) \<lparr>props = \<lparr>validWords = [''AB''], continuing = False,
                            communicator = Some \<lparr>isReady = True, dataChannel = Some []\<rparr>\<rparr>,
                    session = Game (initial 2 6 1 [''AB''])\<rparr>
              (Some \<lparr>keyCode = 65, key = ''A''\<rparr>) True) = [] \<and>
   invoked (onKey (\<lambda>k. k) \<lparr>props = \<lparr>validWords = [''AB''], continuing = False,
                            communicator = Some \<lparr>isReady = True, dataChannel = Some []\<rparr>\<rparr>,
                    session = Game (initial 2 6 1 [''AB''])\<rparr>
              (Some \<lparr>keyCode = 65, key = ''A''\<rparr>) False) = [KeyPressed ''A''] \<and>
   communicator (props (component (onKey (\<lambda>k. k)
                   \<lparr>props = \<lparr>validWords = [''AB''], continuing = False,
                            communicator = Some \<lparr>isReady = True, dataChannel = Some []\<rparr>\<rparr>,
                    session = Game (initial 2 6 1 [''AB''])\<rparr>
              (Some \<lparr>keyCode = 65, key = ''A''\<rparr>) False)))
     = Some \<lparr>isReady = True, dataChannel = Some [KeyPressed ''A'']\<rparr>"
  using onKey_replication [of "\<lambda>k. k"
      "\<lparr>props = \<lparr>validWords = [''AB''], continuing = False,
                 communicator = Some \<lparr>isReady = True, dataChannel = Some []\<rparr>\<rparr>,
        session = Game (initial 2 6 1 [''AB''])\<rparr>"
      "Some \<lparr>keyCode = 65, key = ''A''\<rparr>"
      "\<lparr>isReady = True, dataChannel = Some []\<rparr>" "initial 2 6 1 [''AB'']"
      "\<lparr>keyCode = 65, key = ''A''\<rparr>"]
  by simp

text \<open>
  While the transport is not open the call of the communicator throws inside the
  updater, before the key is applied: the state stays as it was.
\<close>

lemma onKey_not_open:
  assumes "communicator (props m) = Some chat" and "session m = Game g"
    and "\<not> isReady chat \<or> dataChannel chat = None"
    and "(65 \<le> keyCode ev \<and> keyCode ev \<le> 90) \<or> keyCode ev = 8 \<or> keyCode ev = 13"
  shows "thrown (onKey toUpperCase m (Some ev) False) = Some NotOpen \<and>
         session (component (onKey toUpperCase m (Some ev) False)) = Game g"
  using assms
  by (auto simp: onKey_branches update_def broadcast_def send_def Let_def)

section \<open>Guess and boards stay in step\<close>

lemma add_keeps_step:
  assumes "complete b = Incomplete" and "open_letters b = n" and "n < lc"
    and "rows b \<noteq> [] \<longrightarrow> width (last (rows b)) = lc"
  shows "complete (add b lc ga l) = Incomplete \<and> rows (add b lc ga l) \<noteq> [] \<and>
         open_letters (add b lc ga l) = Suc n \<and> width (last (rows (add b lc ga l))) = lc"
  using assms by (auto simp: add_def open_letters_def normalise_def Let_def split: if_splits)

lemma remove_keeps_step:
  assumes "complete b = Incomplete" and "open_letters b = n" and "0 < n"
    and "rows b \<noteq> [] \<longrightarrow> width (last (rows b)) = lc"
  shows "complete (remove b) = Incomplete \<and> rows (remove b) \<noteq> [] \<and>
         open_letters (remove b) = n - 1 \<and> width (last (rows (remove b))) = lc"
  using assms by (auto simp: remove_def open_letters_def normalise_def Let_def split: if_splits)

lemma enter_keeps_step:
  assumes "rows b \<noteq> []" and "open_letters b = lc" and "width (last (rows b)) = lc"
  shows "\<exists>b'. enter b lc ga = Inr b' \<and>
           (complete b' = complete b \<or> complete b' \<noteq> Incomplete) \<and>
           (complete b' = Incomplete \<longrightarrow>
              rows b' \<noteq> [] \<and> open_letters b' = 0 \<and> width (last (rows b')) = lc)"
proof -
  have full: "length (normalise (last (rows b))) = width (last (rows b))"
    using assms by (simp add: open_letters_def)
  show ?thesis
    unfolding enter_full_row [OF assms(1) full] Let_def
    by (simp add: open_letters_def normalise_def)
qed

lemma in_step_initial: "in_step (initial lc ga cols words)"
  by (auto simp: in_step_def initial_def open_letters_def)

lemma in_step_addLetter:
  assumes "in_step g" and "length l = 1"
  shows "in_step (addLetter g l) \<and> letterCount (addLetter g l) = letterCount g"
proof (cases "letterCount g \<le> length (activeGuess g)")
  case True
  with assms show ?thesis by (simp add: addLetter_def)
next
  case False
  then have room: "length (activeGuess g) < letterCount g" by simp
  have "open_letters b' = length (activeGuess g @ l) \<and>
        (rows b' \<noteq> [] \<longrightarrow> width (last (rows b')) = letterCount g)"
    if b': "b' \<in> set (states (addLetter g l))" and inc: "complete b' = Incomplete" for b'
  proof -
    from b' False obtain b where b: "b \<in> set (states g)"
      and eq: "b' = (if complete b \<noteq> Incomplete then b else add b (letterCount g) (guessesAllowed g) l)"
      by (auto simp: addLetter_def)
    from eq inc have cb: "complete b = Incomplete" by (auto split: if_splits)
    with assms(1) b have "open_letters b = length (activeGuess g)"
      "rows b \<noteq> [] \<longrightarrow> width (last (rows b)) = letterCount g"
      by (auto simp: in_step_def)
    from add_keeps_step [OF cb this(1) room this(2), of "guessesAllowed g" l] eq cb assms(2)
    show ?thesis by simp
  qed
  then have boards: "\<forall>b' \<in> set (states (addLetter g l)). complete b' = Incomplete \<longrightarrow>
        open_letters b' = length (activeGuess g @ l) \<and>
        (rows b' \<noteq> [] \<longrightarrow> width (last (rows b')) = letterCount g)"
    by blast
  have ag: "activeGuess (addLetter g l) = activeGuess g @ l"
    "letterCount (addLetter g l) = letterCount g"
    using False by (simp_all add: addLetter_def)
  have "length (activeGuess g @ l) \<le> letterCount g" using room assms(2) by simp
  with boards show ?thesis unfolding in_step_def ag by blast
qed

lemma in_step_removeLetter:
  assumes "in_step g"
  shows "in_step (removeLetter g) \<and> letterCount (removeLetter g) = letterCount g"
proof (cases "length (activeGuess g) \<le> 0")
  case True
  with assms show ?thesis by (simp add: removeLetter_def)
next
  case False
  then have some: "0 < length (activeGuess g)" by simp
  have "open_letters b' = length (activeGuess g) - 1 \<and>
        (rows b' \<noteq> [] \<longrightarrow> width (last (rows b')) = letterCount g)"
    if b': "b' \<in> set (states (removeLetter g))" and inc: "complete b' = Incomplete" for b'
  proof -
    from b' False obtain b where b: "b \<in> set (states g)"
      and eq: "b' = (if complete b \<noteq> Incomplete then b else remove b)"
      by (auto simp: removeLetter_def)
    from eq inc have cb: "complete b = Incomplete" by (auto split: if_splits)
    with assms b have "open_letters b = length (activeGuess g)"
      "rows b \<noteq> [] \<longrightarrow> width (last (rows b)) = letterCount g"
      by (auto simp: in_step_def)
    from remove_keeps_step [OF cb this(1) some this(2)] eq cb
    show ?thesis by simp
  qed
  then have boards: "\<forall>b' \<in> set (states (removeLetter g)). complete b' = Incomplete \<longrightarrow>
        open_letters b' = length (activeGuess g) - 1 \<and>
        (rows b' \<noteq> [] \<longrightarrow> width (last (rows b')) = letterCount g)"
    by blast
  have ag: "length (activeGuess (removeLetter g)) = length (activeGuess g) - 1"
    "letterCount (removeLetter g) = letterCount g"
    using False by (simp_all add: removeLetter_def)
  have "length (activeGuess g) \<le> letterCount g" using assms by (simp add: in_step_def)
  then have "length (activeGuess g) - 1 \<le> letterCount g" by simp
  with boards show ?thesis unfolding in_step_def ag by blast
qed

lemma map_result_Inr:
  "map_result f xs = Inr ys \<Longrightarrow> \<forall>y \<in> set ys. \<exists>x \<in> set xs. f x = Inr y"
  by (induction xs arbitrary: ys) (auto split: sum.splits)

lemma map_result_total:
  "\<forall>x \<in> set xs. \<exists>y. f x = Inr y \<Longrightarrow> \<exists>ys. map_result f xs = Inr ys"
  by (induction xs) (auto split: sum.splits)

lemma in_step_onEnter:
  assumes "in_step g" and "onEnter g vw = Inr (Game g')"
  shows "in_step g' \<and> letterCount g' = letterCount g"
proof (cases "length (activeGuess g) = letterCount g \<and> activeGuess g \<in> set vw")
  case False
  with assms(2) have "g' = g" by (simp add: onEnter_rejected)
  with assms(1) show ?thesis by simp
next
  case True
  let ?f = "\<lambda>e. if complete e \<noteq> Incomplete then Inr e
                 else enter e (letterCount g) (guessesAllowed g)"
  from True have passed: "length (activeGuess g) = letterCount g" "activeGuess g \<in> set vw"
    by simp_all
  obtain sts where sts: "map_result ?f (states g) = Inr sts"
    and g': "g' = g\<lparr>states := sts, activeGuess := []\<rparr>"
  proof (cases "map_result ?f (states g)")
    case (Inl e)
    with assms(2) show ?thesis by (simp add: onEnter_passed [OF passed])
  next
    case (Inr sts)
    with assms(2) have "g' = g\<lparr>states := sts, activeGuess := []\<rparr>"
      by (simp add: onEnter_passed [OF passed] split: if_splits)
    with Inr that show ?thesis by blast
  qed
  have "open_letters b' = 0 \<and> (rows b' \<noteq> [] \<longrightarrow> width (last (rows b')) = letterCount g)"
    if b': "b' \<in> set sts" and inc: "complete b' = Incomplete" for b'
  proof -
    from map_result_Inr [OF sts] b' obtain b where b: "b \<in> set (states g)" and fb: "?f b = Inr b'"
      by blast
    from fb inc have cb: "complete b = Incomplete"
      by (cases "complete b = Incomplete") auto
    with fb have en: "enter b (letterCount g) (guessesAllowed g) = Inr b'" by simp
    have rb: "rows b \<noteq> []"
    proof
      assume "rows b = []"
      then have "enter b (letterCount g) (guessesAllowed g) = Inl TypeError"
        by (simp add: enter_def)
      with en show False by simp
    qed
    from assms(1) b cb have "open_letters b = length (activeGuess g)"
      "rows b \<noteq> [] \<longrightarrow> width (last (rows b)) = letterCount g"
      by (simp_all add: in_step_def)
    with rb passed have "open_letters b = letterCount g" "width (last (rows b)) = letterCount g"
      by simp_all
    from enter_keeps_step [OF rb this, of "guessesAllowed g"] en inc show ?thesis by auto
  qed
  then have "\<forall>b' \<in> set sts. complete b' = Incomplete \<longrightarrow>
     open_letters b' = 0 \<and> (rows b' \<noteq> [] \<longrightarrow> width (last (rows b')) = letterCount g)"
    by blast
  with g' show ?thesis by (simp add: in_step_def)
qed

lemma onEnter_returns:
  assumes "in_step g" and "0 < letterCount g"
  shows "\<exists>s. onEnter g vw = Inr s"
proof (cases "length (activeGuess g) = letterCount g \<and> activeGuess g \<in> set vw")
  case False
  then have "onEnter g vw = Inr (Game g)" by (rule onEnter_rejected)
  then show ?thesis by blast
next
  case True
  let ?f = "\<lambda>e. if complete e \<noteq> Incomplete then Inr e
                 else enter e (letterCount g) (guessesAllowed g)"
  from True have passed: "length (activeGuess g) = letterCount g" "activeGuess g \<in> set vw"
    by simp_all
  have "\<exists>b'. ?f b = Inr b'" if b: "b \<in> set (states g)" for b
  proof (cases "complete b = Incomplete")
    case inc: True
    with assms(1) b have "open_letters b = length (activeGuess g)"
      and w: "rows b \<noteq> [] \<longrightarrow> width (last (rows b)) = letterCount g"
      by (simp_all add: in_step_def)
    with passed have ol: "open_letters b = letterCount g" by simp
    have rb: "rows b \<noteq> []"
    proof
      assume "rows b = []"
      then have "open_letters b = 0" by (simp add: open_letters_def)
      with ol assms(2) show False by simp
    qed
    with w have "width (last (rows b)) = letterCount g" by simp
    from enter_keeps_step [OF rb ol this, of "guessesAllowed g"] inc show ?thesis by auto
  next
    case False
    then show ?thesis by simp
  qed
  then have "\<forall>b \<in> set (states g). \<exists>b'. ?f b = Inr b'" by blast
  then obtain sts where "map_result ?f (states g) = Inr sts"
    using map_result_total [of "states g" ?f] by blast
  then show ?thesis by (simp add: onEnter_passed [OF passed])
qed

lemma run_Win: "run vw (Win w) ops = Inr (Win w)"
  by (induction ops) (simp_all add: apply_operation_def)

lemma run_in_step:
  "in_step g \<Longrightarrow> list_all one_character ops \<Longrightarrow>
     (0 < letterCount g \<longrightarrow> (\<exists>s. run vw (Game g) ops = Inr s)) \<and>
     (\<forall>g'. run vw (Game g) ops = Inr (Game g') \<longrightarrow> in_step g' \<and> letterCount g' = letterCount g)"
proof (induction ops arbitrary: g)
  case Nil
  then show ?case by simp
next
  case (Cons op ops)
  then have rest: "list_all one_character ops" by simp
  have onward: ?case
    if step: "run vw (Game g) (op # ops) = run vw (Game g1) ops"
      and g1: "in_step g1 \<and> letterCount g1 = letterCount g" for g1
  proof -
    from g1 have "in_step g1" and lc: "letterCount g1 = letterCount g" by simp_all
    from Cons.IH [OF this(1) rest]
    have "(0 < letterCount g1 \<longrightarrow> (\<exists>s. run vw (Game g1) ops = Inr s)) \<and>
          (\<forall>g'. run vw (Game g1) ops = Inr (Game g') \<longrightarrow>
             in_step g' \<and> letterCount g' = letterCount g1)" .
    then show ?thesis unfolding step lc .
  qed
  show ?case
  proof (cases op)
    case (AddLetter l)
    with Cons.prems have "length l = 1" by simp
    from in_step_addLetter [OF Cons.prems(1) this] show ?thesis
      by (rule onward [rotated]) (simp add: AddLetter apply_operation_def)
  next
    case RemoveLetter
    from in_step_removeLetter [OF Cons.prems(1)] show ?thesis
      by (rule onward [rotated]) (simp add: RemoveLetter apply_operation_def)
  next
    case OnEnter
    show ?thesis
    proof (cases "onEnter g vw")
      case (Inl e)
      then have stop: "run vw (Game g) (op # ops) = Inl e"
        by (simp add: OnEnter apply_operation_def)
      from onEnter_returns [OF Cons.prems(1), of vw] Inl have "\<not> 0 < letterCount g" by auto
      then show ?thesis unfolding stop by simp
    next
      case (Inr s)
      show ?thesis
      proof (cases s)
        case (Game g1)
        with Inr have en: "onEnter g vw = Inr (Game g1)" by simp
        from in_step_onEnter [OF Cons.prems(1) en] show ?thesis
          by (rule onward [rotated]) (simp add: OnEnter apply_operation_def en)
      next
        case (Win w)
        with Inr have "run vw (Game g) (op # ops) = Inr (Win w)"
          by (simp add: OnEnter apply_operation_def run_Win)
        then show ?thesis by simp
      qed
    qed
  qed
qed

text \<open>
  C7, as the code has it. Start from the initial state and apply any sequence of
  \<open>addLetter\<close>, \<open>removeLetter\<close> and \<open>onEnter\<close> in which every letter given to \<open>addLetter\<close>
  is a string of one character. When \<open>letterCount\<close> is positive no operation throws.
  Every \<open>GameState\<close> that is reached has a guess of at most \<open>letterCount\<close> characters,
  and every board of it that is not complete has as many letters in its open row as the
  guess has characters, a board with no rows counting as zero letters.
\<close>

theorem controller_keeps_step:
  assumes "list_all one_character ops"
  shows "(0 < lc \<longrightarrow> (\<exists>s. run vw (Game (initial lc ga cols words)) ops = Inr s)) \<and>
         (\<forall>g. run vw (Game (initial lc ga cols words)) ops = Inr (Game g) \<longrightarrow>
            length (activeGuess g) \<le> letterCount g \<and>
            (\<forall>b \<in> set (states g). complete b = Incomplete \<longrightarrow>
               open_letters b = length (activeGuess g)))"
proof -
  have lc: "letterCount (initial lc ga cols words) = lc" by (simp add: initial_def)
  from run_in_step [OF in_step_initial assms, of lc ga cols words vw]
  have returns: "0 < lc \<longrightarrow> (\<exists>s. run vw (Game (initial lc ga cols words)) ops = Inr s)"
    and kept: "\<forall>g. run vw (Game (initial lc ga cols words)) ops = Inr (Game g) \<longrightarrow> in_step g"
    unfolding lc by blast+
  from kept have "\<forall>g. run vw (Game (initial lc ga cols words)) ops = Inr (Game g) \<longrightarrow>
            length (activeGuess g) \<le> letterCount g \<and>
            (\<forall>b \<in> set (states g). complete b = Incomplete \<longrightarrow>
               open_letters b = length (activeGuess g))"
    unfolding in_step_def by blast
  with returns show ?thesis by blast
qed

text \<open>
  C7, witness: two boards, the guess AC committed (the second board is won), then B
  typed and removed and A typed.
\<close>

theorem controller_keeps_step_witness:
  "\<exists>g. run [''AB'', ''AC''] (Game (initial 2 6 1 [''AB'', ''AC'']))
         [AddLetter ''A'', AddLetter ''C'', OnEnter, AddLetter ''B'', RemoveLetter, AddLetter ''A'']
         = Inr (Game g) \<and>
       activeGuess g = ''A'' \<and> map complete (states g) = [Incomplete, SUCCESS] \<and>
       length (activeGuess g) \<le> letterCount g \<and>
       (\<forall>b \<in> set (states g). complete b = Incomplete \<longrightarrow>
          open_letters b = length (activeGuess g))"
proof -
  let ?ops = "[AddLetter ''A'', AddLetter ''C'', OnEnter, AddLetter ''B'', RemoveLetter, AddLetter ''A'']"
  define g where "g = \<lparr>letterCount = 2, guessesAllowed = 6, activeGuess = ''A'', columns = 1,
          states =
            [\<lparr>rows =
                [\<lparr>width = 2,
                    letters = Some [\<lparr>letter = ''A'', state = MATCH\<rparr>,
                                    \<lparr>letter = ''C'', state = INVALID\<rparr>]\<rparr>,
                 \<lparr>width = 2, letters = Some [\<lparr>letter = ''A'', state = INVALID\<rparr>]\<rparr>],
              complete = Incomplete, target = ''AB''\<rparr>,
             \<lparr>rows =
                [\<lparr>width = 2,
                    letters = Some [\<lparr>letter = ''A'', state = MATCH\<rparr>,
                                    \<lparr>letter = ''C'', state = MATCH\<rparr>]\<rparr>],
              complete = SUCCESS, target = ''AC''\<rparr>]\<rparr>"
  have typed: "list_all one_character ?ops" by simp
  have r: "run [''AB'', ''AC''] (Game (initial 2 6 1 [''AB'', ''AC''])) ?ops = Inr (Game g)"
    unfolding g_def by code_simp
  have "\<forall>g. run [''AB'', ''AC''] (Game (initial 2 6 1 [''AB'', ''AC''])) ?ops = Inr (Game g) \<longrightarrow>
            length (activeGuess g) \<le> letterCount g \<and>
            (\<forall>b \<in> set (states g). complete b = Incomplete \<longrightarrow>
               open_letters b = length (activeGuess g))"
    using controller_keeps_step [OF typed, of 2 "[''AB'', ''AC'']" 6 1 "[''AB'', ''AC'']"]
    by (rule conjunct2)
  then have kept: "length (activeGuess g) \<le> letterCount g \<and>
       (\<forall>b \<in> set (states g). complete b = Incomplete \<longrightarrow>
          open_letters b = length (activeGuess g))"
    by (rule allE) (erule mp, rule r)
  have shape: "activeGuess g = ''A''" "map complete (states g) = [Incomplete, SUCCESS]"
    by (simp_all add: g_def)
  from kept have k1: "length (activeGuess g) \<le> letterCount g" by (rule conjunct1)
  from kept have k2: "\<forall>b \<in> set (states g). complete b = Incomplete \<longrightarrow>
          open_letters b = length (activeGuess g)" by (rule conjunct2)
  show ?thesis
    by (rule exI [of _ g]) (intro conjI r shape k1 k2)
qed

text \<open>
  C7, counterexample: \<open>addLetter\<close> takes any string. With the two-character string
  \<open>"AB"\<close> on the initial state the guess grows by two characters and the open row of
  the board by one letter.
\<close>

theorem addLetter_two_characters:
  "addLetter (initial 2 6 1 [''AB'']) ''AB''
     = \<lparr>letterCount = 2, guessesAllowed = 6, activeGuess = ''AB'', columns = 1,
        states = [\<lparr>rows = [\<lparr>width = 2, letters = Some [\<lparr>letter = ''AB'', state = INVALID\<rparr>]\<rparr>],
                   complete = Incomplete, target = ''AB''\<rparr>]\<rparr> \<and>
   open_letters \<lparr>rows = [\<lparr>width = 2, letters = Some [\<lparr>letter = ''AB'', state = INVALID\<rparr>]\<rparr>],
                 complete = Incomplete, target = ''AB''\<rparr> = 1 \<and>
   length ''AB'' = 2"
  by code_simp

section \<open>The rows that onEnter commits\<close>















end
